theory Spec2Isabelle
  imports Main "HOL-Library.Sublist" "HOL-Library.Multiset"
begin

section \<open>Library functions used by the scanner\<close>

text \<open>
  Go strings are byte sequences; they are modelled as \<open>string\<close> (a list of 8-bit
  characters). The program only ever splits at the one-byte separator \<open>"\n"\<close>.
\<close>

definition newline :: char where
  "newline = CHR 0x0A"

text \<open>
  \<open>strings.Split(s, "\n")\<close>: cut at the first separator, keep what is before it, go on
  with what follows it; the remainder without separator is the last element. The result
  is never empty: \<open>Split ""\<close> is the list holding one empty string.
\<close>

function Split :: "string \<Rightarrow> string list" where
  "Split s =
     (if newline \<in> set s
      then takeWhile (\<lambda>c. c \<noteq> newline) s # Split (tl (dropWhile (\<lambda>c. c \<noteq> newline) s))
      else [s])"
  by pat_completeness auto
termination
proof (relation "measure length")
  show "wf (measure length)" by simp
next
  fix s :: string
  assume nl: "newline \<in> set s"
  then have "dropWhile (\<lambda>c. c \<noteq> newline) s \<noteq> []" by simp
  then have "length (tl (dropWhile (\<lambda>c. c \<noteq> newline) s))
      < length (dropWhile (\<lambda>c. c \<noteq> newline) s)"
    by simp
  also have "\<dots> \<le> length s" by (rule length_dropWhile_le)
  finally show "(tl (dropWhile (\<lambda>c. c \<noteq> newline) s), s) \<in> measure length" by simp
qed

declare Split.simps [simp del]

text \<open>\<open>strings.Contains(s, substr)\<close>: some position of \<open>s\<close> starts with \<open>substr\<close>.\<close>

fun Contains :: "string \<Rightarrow> string \<Rightarrow> bool" where
  "Contains [] substr = (substr = [])"
| "Contains (c # cs) substr = (prefix substr (c # cs) \<or> Contains cs substr)"

text \<open>The verb \<open>%v\<close> of \<open>fmt.Sprintf\<close> on a non-negative \<open>int\<close>: its decimal digits.\<close>

fun Itoa :: "nat \<Rightarrow> string" where
  "Itoa n = (if n < 10 then [char_of (48 + n)] else Itoa (n div 10) @ [char_of (48 + n mod 10)])"

declare Itoa.simps [simp del]

text \<open>
  \<open>filepath.Clean\<close> on a system with the separator \<open>/\<close>: the path is cut at the
  separators; empty elements and \<open>.\<close> are dropped; \<open>..\<close> removes the element before it,
  is dropped at the root, and is kept at the start of a relative path; the elements are
  put together again, after the root's \<open>/\<close> if the path is rooted; an empty result is
  \<open>.\<close>.
\<close>

fun path_elems :: "string \<Rightarrow> string list" where
  "path_elems [] = [[]]"
| "path_elems (c # cs) =
     (if c = CHR ''/'' then [] # path_elems cs
      else (case path_elems cs of [] \<Rightarrow> [[c]] | e # es \<Rightarrow> (c # e) # es))"

fun clean_elem :: "bool \<Rightarrow> string list \<Rightarrow> string \<Rightarrow> string list" where
  "clean_elem rooted out e =
     (if e = [] \<or> e = ''.'' then out
      else if e = ''..'' then
        (if out \<noteq> [] \<and> last out \<noteq> ''..'' then butlast out
         else if rooted then out
         else out @ [e])
      else out @ [e])"

fun join_elems :: "string list \<Rightarrow> string" where
  "join_elems [] = []"
| "join_elems [e] = e"
| "join_elems (e # f # es) = e @ ''/'' @ join_elems (f # es)"

definition Clean :: "string \<Rightarrow> string" where
  "Clean p =
     (let rooted = (take 1 p = ''/'');
          body = join_elems (foldl (clean_elem rooted) [] (path_elems p))
      in if rooted then ''/'' @ body else if body = [] then ''.'' else body)"

text \<open>
  \<open>filepath.Join(path, name)\<close>: the non-empty arguments put together with the
  separator and cleaned; the empty string if both are empty.
\<close>

definition Join :: "string \<Rightarrow> string \<Rightarrow> string" where
  "Join dir name =
     (if dir = [] \<and> name = [] then []
      else Clean (if dir = [] then name else if name = [] then dir else dir @ ''/'' @ name))"

section \<open>Data model\<close>

text \<open>
  \<open>type FoundString struct { path string; index int; line string }\<close>. The index is
  the position of a line in a slice, so it is never negative and never overflows
  \<open>int\<close>; it is a \<open>nat\<close> here.
\<close>

record FoundString =
  path :: string
  index :: nat
  line :: string

text \<open>\<open>func (fs FoundString) String() string\<close>\<close>

definition FoundString_String :: "FoundString \<Rightarrow> string" where
  "FoundString_String fs =
     ''Hit found in file '' @ path fs @ [newline]
     @ ''Line '' @ Itoa (index fs) @ '': '' @ [newline]
     @ line fs @ [newline]"

text \<open>
  \<open>fmt.Println(hit)\<close> in \<open>main.go\<close> prints one value through its \<open>String\<close> method,
  followed by a newline; \<open>fmt.Println(hits)\<close> in the mutex variant prints the whole
  slice: its elements, each through \<open>String\<close>, separated by blanks, in brackets.
\<close>

definition Println_hit :: "FoundString \<Rightarrow> string" where
  "Println_hit hit = FoundString_String hit @ [newline]"

fun Sprint_elems :: "string list \<Rightarrow> string" where
  "Sprint_elems [] = []"
| "Sprint_elems [x] = x"
| "Sprint_elems (x # y # ys) = x @ '' '' @ Sprint_elems (y # ys)"

definition Println_hits :: "FoundString list \<Rightarrow> string" where
  "Println_hits hits = ''['' @ Sprint_elems (map FoundString_String hits) @ '']'' @ [newline]"

text \<open>
  What the file system holds at a path: a readable file with its content, a file whose
  read fails, a directory with its entries (name and what is there) in listing order, a
  directory whose listing fails, and an entry that is listed but whose \<open>Info()\<close> fails
  (it vanished after the listing).
\<close>

datatype fsnode =
    File string
  | NoReadFile
  | Dir "(string \<times> fsnode) list"
  | NoReadDir
  | Gone

datatype go_error = PathError string

text \<open>
  \<open>os.ReadFile(path)\<close> and \<open>os.ReadDir(path)\<close>, whose errors carry the path;
  \<open>file.IsDir()\<close>; and \<open>file.Info()\<close> for an entry of the directory listed at
  \<open>dir\<close>, which gives the entry's name or an error that carries \<open>dir\<close>, the
  separator and the name.
\<close>

fun ReadFile :: "string \<Rightarrow> fsnode \<Rightarrow> go_error + string" where
  "ReadFile p (File fileData) = Inr fileData"
| "ReadFile p other = Inl (PathError p)"

fun ReadDir :: "string \<Rightarrow> fsnode \<Rightarrow> go_error + (string \<times> fsnode) list" where
  "ReadDir p (Dir directoryList) = Inr directoryList"
| "ReadDir p other = Inl (PathError p)"

fun IsDir :: "fsnode \<Rightarrow> bool" where
  "IsDir (Dir es) = True"
| "IsDir NoReadDir = True"
| "IsDir other = False"

fun Info :: "string \<Rightarrow> string \<Rightarrow> fsnode \<Rightarrow> go_error + string" where
  "Info dir name Gone = Inl (PathError (dir @ ''/'' @ name))"
| "Info dir name other = Inr name"

section \<open>Goroutines\<close>

text \<open>
  Each goroutine is a control point with its local variables. A task is a goroutine
  running \<open>parseDir\<close> or \<open>parseFile\<close>; it carries the path and search string it was
  started with, and what the file system holds at that path.

  \<^item> \<open>parseDir_entry\<close>: at \<open>os.ReadDir(path)\<close>.
  \<^item> \<open>parseDir_loop\<close>: at the head of \<open>for _, file := range directoryList\<close>, with the
    entries not yet visited.
  \<^item> \<open>parseDir_spawn\<close>: after \<open>wg.Add(1)\<close>, at the \<open>go\<close> statement for the entry
    (\<open>parseDir\<close> if the flag is set, \<open>parseFile\<close> otherwise).
  \<^item> \<open>parseFile_entry\<close>: at \<open>os.ReadFile(path)\<close>.
  \<^item> \<open>parseFile_loop\<close>: at the head of \<open>for index, line := range lines\<close>, with the
    next index and the lines not yet visited.
  \<^item> \<open>check_blocked\<close>: inside \<open>check\<close>, at \<open>errors <- e\<close>.
  \<^item> \<open>Finished\<close>: returned, the deferred \<open>wg.Done()\<close> has run.
\<close>

datatype task =
    parseDir_entry string string fsnode
  | parseDir_loop string string "(string \<times> fsnode) list"
  | parseDir_spawn string string bool string fsnode "(string \<times> fsnode) list"
  | parseFile_entry string string fsnode
  | parseFile_loop string string nat "string list"
  | check_blocked go_error
  | Finished

text \<open>
  The collector goroutine (\<open>collectStrings\<close>): not yet started; at \<open>lock.Lock()\<close> (mutex
  variant only); at \<open>value, ok := <-found\<close> with its local \<open>list\<close>; at
  \<open>results <- list\<close>; at the deferred \<open>lock.Unlock()\<close> (mutex variant only); returned.
\<close>

datatype coll_pc =
    C_not_started
  | C_Lock
  | C_loop "FoundString list"
  | C_send "FoundString list"
  | C_Unlock
  | C_returned

text \<open>
  The main goroutine, statement by statement. \<open>M_recv\<close> (\<open>hits := <-results\<close>) belongs
  to \<open>main.go\<close>; \<open>M_Lock\<close> and \<open>M_select\<close> belong to the mutex variant. \<open>M_print\<close>
  holds the received \<open>hits\<close>; \<open>M_exit\<close> is the return from \<open>main\<close>, which ends the
  process with status 0.
\<close>

datatype main_pc =
    M_go_collect
  | M_arg1
  | M_arg2 string
  | M_Add string string
  | M_go_parseDir string string
  | M_Wait
  | M_close
  | M_recv
  | M_Lock
  | M_select
  | M_print "FoundString list"
  | M_exit

text \<open>Run-time panics and fatal errors of the Go runtime; each ends the process with status 2.\<close>

datatype runtime_error =
    IndexOutOfRange nat nat
  | NegativeWaitGroupCounter
  | SendOnClosedChannel
  | CloseOfClosedChannel
  | UnlockOfUnlockedMutex

text \<open>
  The shared state: the \<open>WaitGroup\<close> counter, whether \<open>found\<close> is closed, the buffer
  of \<open>results\<close> (always empty in \<open>main.go\<close>, where the channel is unbuffered), the
  mutex of the mutex variant, and standard output. The channel \<open>errors\<close> has no state:
  it is unbuffered and no statement of the program receives from it. Standard error is
  not part of the state either: no statement of the two programs writes to it, only the
  runtime's own report of a panic or a deadlock goes there (field \<open>fatal\<close>).

  The last three fields are history variables, written and never read by the program's
  steps: the matches handed over on \<open>found\<close> so far, in order, and the numbers of
  \<open>wg.Add(1)\<close> and \<open>wg.Done()\<close> calls so far.
\<close>

record state =
  driver :: main_pc
  collector :: coll_pc
  tasks :: "task list"
  wg :: int
  found_closed :: bool
  results :: "FoundString list list"
  resultsLock :: bool
  stdout :: string
  fatal :: "runtime_error option"
  emitted :: "FoundString list"
  wg_adds :: nat
  wg_dones :: nat

text \<open>The two programs of the repository, and what a run is given from outside.\<close>

datatype variant = Unbuffered | Mutexed

record env =
  variant :: variant
  Args :: "string list"
  searchDirTree :: fsnode

definition init :: state where
  "init = \<lparr>driver = M_go_collect, collector = C_not_started, tasks = [], wg = 0,
            found_closed = False, results = [], resultsLock = False, stdout = [],
            fatal = None, emitted = [], wg_adds = 0, wg_dones = 0\<rparr>"

subsection \<open>Steps of a task\<close>

definition set_task :: "nat \<Rightarrow> task \<Rightarrow> state \<Rightarrow> state" where
  "set_task i t s = s\<lparr>tasks := (tasks s)[i := t]\<rparr>"

definition wg_Add :: "state \<Rightarrow> state" where
  "wg_Add s = s\<lparr>wg := wg s + 1, wg_adds := Suc (wg_adds s)\<rparr>"

text \<open>
  Return from a task: the deferred \<open>wg.Done()\<close>, which panics when the counter would
  become negative.
\<close>

definition task_return :: "nat \<Rightarrow> state \<Rightarrow> state" where
  "task_return i s =
     (if wg s - 1 < 0 then s\<lparr>fatal := Some NegativeWaitGroupCounter\<rparr>
      else s\<lparr>wg := wg s - 1, wg_dones := Suc (wg_dones s), tasks := (tasks s)[i := Finished]\<rparr>)"

text \<open>
  \<open>check(e)\<close>: with no error the task goes on; with an error it sends on \<open>errors\<close>, an
  unbuffered channel that nobody receives from, and stays there.
\<close>

fun check :: "go_error + 'a \<Rightarrow> ('a \<Rightarrow> task) \<Rightarrow> task" where
  "check (Inl e) continue = check_blocked e"
| "check (Inr v) continue = continue v"

text \<open>
  \<open>found <- FoundString{...}\<close>: \<open>found\<close> is unbuffered, so the send completes together
  with the collector's receive, when the collector is at \<open><-found\<close>; the collector then
  appends the value to its list (the \<open>time.Sleep\<close> that \<open>main.go\<close> has before the
  append only delays the collector and is no step of its own). A send on a closed
  channel panics.
\<close>

definition send_found :: "nat \<Rightarrow> FoundString \<Rightarrow> task \<Rightarrow> state \<Rightarrow> state" where
  "send_found i hit t s =
     (if found_closed s then s\<lparr>fatal := Some SendOnClosedChannel\<rparr>
      else case collector s of
        C_loop list \<Rightarrow>
          s\<lparr>collector := C_loop (list @ [hit]), emitted := emitted s @ [hit],
            tasks := (tasks s)[i := t]\<rparr>
      | _ \<Rightarrow> s)"

fun task_step :: "nat \<Rightarrow> task \<Rightarrow> state \<Rightarrow> state" where
  "task_step i (parseDir_entry p ss n) s =
     set_task i (check (ReadDir p n) (\<lambda>directoryList. parseDir_loop p ss directoryList)) s"
| "task_step i (parseDir_loop p ss []) s = task_return i s"
| "task_step i (parseDir_loop p ss ((name, n) # rest)) s =
     (case Info p name n of
        Inl e \<Rightarrow> set_task i (check_blocked e) s
      | Inr fileName \<Rightarrow>
          set_task i (parseDir_spawn p ss (IsDir n) (Join p fileName) n rest) (wg_Add s))"
| "task_step i (parseDir_spawn p ss isdir completePath n rest) s =
     s\<lparr>tasks := (tasks s)[i := parseDir_loop p ss rest]
          @ [if isdir then parseDir_entry completePath ss n
             else parseFile_entry completePath ss n]\<rparr>"
| "task_step i (parseFile_entry p ss n) s =
     set_task i (check (ReadFile p n) (\<lambda>fileData. parseFile_loop p ss 0 (Split fileData))) s"
| "task_step i (parseFile_loop p ss k []) s = task_return i s"
| "task_step i (parseFile_loop p ss k (l # ls)) s =
     (if Contains l ss
      then send_found i \<lparr>path = p, index = k, line = l\<rparr> (parseFile_loop p ss (Suc k) ls) s
      else set_task i (parseFile_loop p ss (Suc k) ls) s)"
| "task_step i (check_blocked e) s = s"
| "task_step i Finished s = s"

subsection \<open>Steps of the collector\<close>

text \<open>
  At \<open><-found\<close> the collector can only move by itself once \<open>found\<close> is closed (the
  receive of a value is the joint step \<open>send_found\<close>): it leaves the loop, and sends
  the list on \<open>results\<close> if it is not empty. In \<open>main.go\<close> that send completes
  together with the receive in \<open>main\<close> (see \<open>main_step\<close>); in the mutex variant
  \<open>results\<close> has capacity 1 and the send completes when the buffer has room.
\<close>

definition collectStrings_step :: "variant \<Rightarrow> state \<Rightarrow> state" where
  "collectStrings_step v s =
     (case collector s of
        C_not_started \<Rightarrow> s
      | C_Lock \<Rightarrow>
          if resultsLock s then s else s\<lparr>resultsLock := True, collector := C_loop []\<rparr>
      | C_loop list \<Rightarrow>
          if found_closed s
          then (if length list > 0 then s\<lparr>collector := C_send list\<rparr>
                else s\<lparr>collector := (case v of Unbuffered \<Rightarrow> C_returned | Mutexed \<Rightarrow> C_Unlock)\<rparr>)
          else s
      | C_send list \<Rightarrow>
          (case v of
             Unbuffered \<Rightarrow> s
           | Mutexed \<Rightarrow>
               if length (results s) < 1
               then s\<lparr>results := results s @ [list], collector := C_Unlock\<rparr>
               else s)
      | C_Unlock \<Rightarrow>
          if resultsLock s then s\<lparr>resultsLock := False, collector := C_returned\<rparr>
          else s\<lparr>fatal := Some UnlockOfUnlockedMutex\<rparr>
      | C_returned \<Rightarrow> s)"

subsection \<open>Steps of main\<close>

definition main_step :: "env \<Rightarrow> state \<Rightarrow> state" where
  "main_step E s =
     (case driver s of
        M_go_collect \<Rightarrow>
          s\<lparr>collector := (case variant E of Unbuffered \<Rightarrow> C_loop [] | Mutexed \<Rightarrow> C_Lock),
            driver := M_arg1\<rparr>
      | M_arg1 \<Rightarrow>
          if 1 < length (Args E) then s\<lparr>driver := M_arg2 (Args E ! 1)\<rparr>
          else s\<lparr>fatal := Some (IndexOutOfRange 1 (length (Args E)))\<rparr>
      | M_arg2 searchString \<Rightarrow>
          if 2 < length (Args E) then s\<lparr>driver := M_Add searchString (Args E ! 2)\<rparr>
          else s\<lparr>fatal := Some (IndexOutOfRange 2 (length (Args E)))\<rparr>
      | M_Add searchString searchDir \<Rightarrow>
          (wg_Add s)\<lparr>driver := M_go_parseDir searchString searchDir\<rparr>
      | M_go_parseDir searchString searchDir \<Rightarrow>
          s\<lparr>tasks := tasks s @ [parseDir_entry searchDir searchString (searchDirTree E)],
            driver := M_Wait\<rparr>
      | M_Wait \<Rightarrow> if wg s = 0 then s\<lparr>driver := M_close\<rparr> else s
      | M_close \<Rightarrow>
          if found_closed s then s\<lparr>fatal := Some CloseOfClosedChannel\<rparr>
          else s\<lparr>found_closed := True,
                 driver := (case variant E of Unbuffered \<Rightarrow> M_recv | Mutexed \<Rightarrow> M_Lock)\<rparr>
      | M_recv \<Rightarrow>
          (case collector s of
             C_send list \<Rightarrow> s\<lparr>collector := C_returned, driver := M_print list\<rparr>
           | _ \<Rightarrow> s)
      | M_Lock \<Rightarrow> if resultsLock s then s else s\<lparr>resultsLock := True, driver := M_select\<rparr>
      | M_select \<Rightarrow>
          (case results s of
             hits # rest \<Rightarrow> s\<lparr>results := rest, driver := M_print hits\<rparr>
           | [] \<Rightarrow> s\<lparr>driver := M_exit\<rparr>)
      | M_print hits \<Rightarrow>
          s\<lparr>stdout := stdout s @
               (case variant E of
                  Unbuffered \<Rightarrow> concat (map Println_hit hits)
                | Mutexed \<Rightarrow> Println_hits hits),
            driver := M_exit\<rparr>
      | M_exit \<Rightarrow> s)"

subsection \<open>Interleavings\<close>

text \<open>
  A schedule names, step by step, the goroutine that runs next. A goroutine that cannot
  move (it is blocked, or has returned) leaves the state as it is. Once \<open>main\<close> has
  returned or the runtime has aborted the process, nothing moves any more.
\<close>

datatype action = AMain | ACollect | ATask nat

definition step :: "env \<Rightarrow> action \<Rightarrow> state \<Rightarrow> state" where
  "step E a s =
     (if driver s = M_exit \<or> fatal s \<noteq> None then s
      else case a of
        AMain \<Rightarrow> main_step E s
      | ACollect \<Rightarrow> collectStrings_step (variant E) s
      | ATask i \<Rightarrow> if i < length (tasks s) then task_step i (tasks s ! i) s else s)"

definition run :: "env \<Rightarrow> action list \<Rightarrow> state \<Rightarrow> state" where
  "run E sched s = fold (step E) sched s"

definition execution :: "env \<Rightarrow> action list \<Rightarrow> state" where
  "execution E sched = run E sched init"

text \<open>
  No goroutine can move and the process has not ended: the runtime then stops it with
  ``all goroutines are asleep - deadlock!''.
\<close>

definition deadlocked :: "env \<Rightarrow> state \<Rightarrow> bool" where
  "deadlocked E s \<longleftrightarrow>
     driver s \<noteq> M_exit \<and> fatal s = None \<and>
     list_all (\<lambda>a. step E a s = s) (AMain # ACollect # map ATask [0..<length (tasks s)])"

text \<open>The exit status of the process, once it has one.\<close>

definition exit_status :: "env \<Rightarrow> state \<Rightarrow> nat option" where
  "exit_status E s =
     (if fatal s \<noteq> None then Some 2
      else if driver s = M_exit then Some 0
      else if deadlocked E s then Some 2
      else None)"

section \<open>What a file task emits\<close>

text \<open>
  The loop of \<open>parseFile\<close> over \<open>lines\<close>, run to its end from index \<open>k\<close>: the values it
  sends on \<open>found\<close>, in the order it sends them.
\<close>

fun range_hits :: "string \<Rightarrow> string \<Rightarrow> nat \<Rightarrow> string list \<Rightarrow> FoundString list" where
  "range_hits p ss k [] = []"
| "range_hits p ss k (l # ls) =
     (if Contains l ss then \<lparr>path = p, index = k, line = l\<rparr> # range_hits p ss (Suc k) ls
      else range_hits p ss (Suc k) ls)"

definition parseFile_hits :: "string \<Rightarrow> string \<Rightarrow> string \<Rightarrow> FoundString list" where
  "parseFile_hits p ss fileData = range_hits p ss 0 (Split fileData)"

text \<open>Lines put together again with the separator between them.\<close>

fun join_lines :: "string list \<Rightarrow> string" where
  "join_lines [] = []"
| "join_lines [l] = l"
| "join_lines (l # m # ls) = l @ [newline] @ join_lines (m # ls)"

section \<open>Measures over the task pool\<close>

text \<open>
  The sum of a measure over all tasks, and the same sum without the task at one index.
\<close>

definition total :: "(task \<Rightarrow> 'a::comm_monoid_add) \<Rightarrow> state \<Rightarrow> 'a" where
  "total f s = sum_list (map f (tasks s))"

definition others :: "(task \<Rightarrow> 'a::comm_monoid_add) \<Rightarrow> task list \<Rightarrow> nat \<Rightarrow> 'a" where
  "others f ts i = sum_list (map f (take i ts)) + sum_list (map f (drop (Suc i) ts))"

text \<open>
  The units of work a task accounts for in the \<open>WaitGroup\<close> counter: itself while it
  has not returned, and one more between its \<open>wg.Add(1)\<close> and the \<open>go\<close> statement
  that follows.
\<close>

fun weight :: "task \<Rightarrow> nat" where
  "weight (parseDir_entry p ss n) = 1"
| "weight (parseDir_loop p ss es) = 1"
| "weight (parseDir_spawn p ss isdir cp n rest) = 2"
| "weight (parseFile_entry p ss n) = 1"
| "weight (parseFile_loop p ss k ls) = 1"
| "weight (check_blocked e) = 1"
| "weight Finished = 0"

fun blocked :: "task \<Rightarrow> nat" where
  "blocked (parseDir_entry p ss n) = 0"
| "blocked (parseDir_loop p ss es) = 0"
| "blocked (parseDir_spawn p ss isdir cp n rest) = 0"
| "blocked (parseFile_entry p ss n) = 0"
| "blocked (parseFile_loop p ss k ls) = 0"
| "blocked (check_blocked e) = 1"
| "blocked Finished = 0"

text \<open>Where \<open>main\<close> stands: has it started the root task, has it returned from \<open>wg.Wait()\<close>,
  and how many units it has registered before the root task is started.\<close>

fun spawned :: "main_pc \<Rightarrow> bool" where
  "spawned M_go_collect = False"
| "spawned M_arg1 = False"
| "spawned (M_arg2 ss) = False"
| "spawned (M_Add ss dir) = False"
| "spawned (M_go_parseDir ss dir) = False"
| "spawned M_Wait = True"
| "spawned M_close = True"
| "spawned M_recv = True"
| "spawned M_Lock = True"
| "spawned M_select = True"
| "spawned (M_print hits) = True"
| "spawned M_exit = True"

fun past_Wait :: "main_pc \<Rightarrow> bool" where
  "past_Wait M_go_collect = False"
| "past_Wait M_arg1 = False"
| "past_Wait (M_arg2 ss) = False"
| "past_Wait (M_Add ss dir) = False"
| "past_Wait (M_go_parseDir ss dir) = False"
| "past_Wait M_Wait = False"
| "past_Wait M_close = True"
| "past_Wait M_recv = True"
| "past_Wait M_Lock = True"
| "past_Wait M_select = True"
| "past_Wait (M_print hits) = True"
| "past_Wait M_exit = True"

fun registered :: "main_pc \<Rightarrow> nat" where
  "registered M_go_collect = 0"
| "registered M_arg1 = 0"
| "registered (M_arg2 ss) = 0"
| "registered (M_Add ss dir) = 0"
| "registered other = 1"

section \<open>What a tree holds\<close>

text \<open>
  The matches in a tree: what a file task started on a node sends in all, and the same
  for a directory task with everything below it. A node that cannot be read gives none.
\<close>

fun file_hits :: "string \<Rightarrow> string \<Rightarrow> fsnode \<Rightarrow> FoundString multiset" where
  "file_hits p ss (File fileData) = mset (parseFile_hits p ss fileData)"
| "file_hits p ss other = {#}"

fun dir_hits :: "string \<Rightarrow> string \<Rightarrow> fsnode \<Rightarrow> FoundString multiset"
  and entries_hits :: "string \<Rightarrow> string \<Rightarrow> (string \<times> fsnode) list \<Rightarrow> FoundString multiset" where
  "dir_hits p ss (Dir es) = entries_hits p ss es"
| "dir_hits p ss (File fileData) = {#}"
| "dir_hits p ss NoReadFile = {#}"
| "dir_hits p ss NoReadDir = {#}"
| "dir_hits p ss Gone = {#}"
| "entries_hits p ss [] = {#}"
| "entries_hits p ss ((name, n) # es) =
     (if IsDir n then dir_hits (Join p name) ss n else file_hits (Join p name) ss n)
     + entries_hits p ss es"

text \<open>The matches of a run: those of the tree at \<open>os.Args[2]\<close> for the string \<open>os.Args[1]\<close>.\<close>

definition tree_hits :: "env \<Rightarrow> FoundString multiset" where
  "tree_hits E = dir_hits (Args E ! 2) (Args E ! 1) (searchDirTree E)"

text \<open>The matches a task has still to send, itself or through the tasks it will start.\<close>

fun task_hits :: "task \<Rightarrow> FoundString multiset" where
  "task_hits (parseDir_entry p ss n) = dir_hits p ss n"
| "task_hits (parseDir_loop p ss es) = entries_hits p ss es"
| "task_hits (parseDir_spawn p ss isdir cp n rest) =
     (if isdir then dir_hits cp ss n else file_hits cp ss n) + entries_hits p ss rest"
| "task_hits (parseFile_entry p ss n) = file_hits p ss n"
| "task_hits (parseFile_loop p ss k ls) = mset (range_hits p ss k ls)"
| "task_hits (check_blocked e) = {#}"
| "task_hits Finished = {#}"

text \<open>
  The number of file system entries below a node, and of a tree: its root and all
  entries below it, files and directories alike.
\<close>

fun descendants :: "fsnode \<Rightarrow> nat" and entries_count :: "(string \<times> fsnode) list \<Rightarrow> nat" where
  "descendants (Dir es) = entries_count es"
| "descendants (File fileData) = 0"
| "descendants NoReadFile = 0"
| "descendants NoReadDir = 0"
| "descendants Gone = 0"
| "entries_count [] = 0"
| "entries_count ((name, n) # es) = 1 + descendants n + entries_count es"

definition tree_size :: "fsnode \<Rightarrow> nat" where
  "tree_size n = 1 + descendants n"

text \<open>The entries a task has still to register, itself or through the tasks it will start.\<close>

fun task_unregistered :: "task \<Rightarrow> nat" where
  "task_unregistered (parseDir_entry p ss n) = descendants n"
| "task_unregistered (parseDir_loop p ss es) = entries_count es"
| "task_unregistered (parseDir_spawn p ss isdir cp n rest) = descendants n + entries_count rest"
| "task_unregistered (parseFile_entry p ss n) = descendants n"
| "task_unregistered (parseFile_loop p ss k ls) = 0"
| "task_unregistered (check_blocked e) = 0"
| "task_unregistered Finished = 0"

text \<open>
  Does a read fail somewhere: for a file task on a node, for a directory task on a node
  and the tasks below it. A directory task started on anything but a listable directory
  fails at once.
\<close>

fun file_blocks :: "fsnode \<Rightarrow> bool" where
  "file_blocks (File fileData) = False"
| "file_blocks other = True"

fun dir_blocks :: "fsnode \<Rightarrow> bool" and entries_block :: "(string \<times> fsnode) list \<Rightarrow> bool" where
  "dir_blocks (Dir es) = entries_block es"
| "dir_blocks (File fileData) = True"
| "dir_blocks NoReadFile = True"
| "dir_blocks NoReadDir = True"
| "dir_blocks Gone = True"
| "entries_block [] = False"
| "entries_block ((name, n) # es) =
     ((if IsDir n then dir_blocks n else file_blocks n) \<or> entries_block es)"

fun task_blocks :: "task \<Rightarrow> nat" where
  "task_blocks (parseDir_entry p ss n) = of_bool (dir_blocks n)"
| "task_blocks (parseDir_loop p ss es) = of_bool (entries_block es)"
| "task_blocks (parseDir_spawn p ss isdir cp n rest) =
     of_bool ((if isdir then dir_blocks n else file_blocks n) \<or> entries_block rest)"
| "task_blocks (parseFile_entry p ss n) = of_bool (file_blocks n)"
| "task_blocks (parseFile_loop p ss k ls) = 0"
| "task_blocks (check_blocked e) = 1"
| "task_blocks Finished = 0"

section \<open>Invariants of every execution\<close>

text \<open>
  The counter of the \<open>WaitGroup\<close> is the number of units registered and not yet done; it
  is zero once \<open>main\<close> is past \<open>wg.Wait()\<close>; nothing runs before \<open>main\<close> starts the
  root task.
\<close>

definition inv_wg :: "state \<Rightarrow> bool" where
  "inv_wg s \<longleftrightarrow>
     wg s = int (total weight s) + (if spawned (driver s) then 0 else int (registered (driver s)))
   \<and> wg s = int (wg_adds s) - int (wg_dones s)
   \<and> (past_Wait (driver s) \<longrightarrow> wg s = 0)
   \<and> (\<not> spawned (driver s) \<longrightarrow>
        tasks s = [] \<and> wg_adds s = registered (driver s) \<and> wg_dones s = 0 \<and> emitted s = [])"

text \<open>The local variables of \<open>main\<close> are the arguments it has read.\<close>

fun args_ok :: "env \<Rightarrow> main_pc \<Rightarrow> bool" where
  "args_ok E M_go_collect = True"
| "args_ok E M_arg1 = True"
| "args_ok E (M_arg2 ss) = (1 < length (Args E) \<and> ss = Args E ! 1)"
| "args_ok E (M_Add ss dir) = (2 < length (Args E) \<and> ss = Args E ! 1 \<and> dir = Args E ! 2)"
| "args_ok E (M_go_parseDir ss dir) = (2 < length (Args E) \<and> ss = Args E ! 1 \<and> dir = Args E ! 2)"
| "args_ok E other = (2 < length (Args E))"

text \<open>
  As long as no task is stuck in \<open>check\<close>, the matches handed over and those still to
  come are the matches of the tree, and the units registered and those still to be
  registered are the entries of the tree. If a read fails somewhere in the tree, some
  task is stuck or will be.
\<close>

definition inv_tasks :: "env \<Rightarrow> state \<Rightarrow> bool" where
  "inv_tasks E s \<longleftrightarrow>
     args_ok E (driver s)
   \<and> (spawned (driver s) \<longrightarrow>
        (0 < total blocked s
         \<or> mset (emitted s) + total task_hits s = tree_hits E
           \<and> wg_adds s + total task_unregistered s = tree_size (searchDirTree E))
        \<and> (dir_blocks (searchDirTree E) \<longrightarrow> 0 < total task_blocks s))"

text \<open>Who holds the mutex of the mutex variant, and where \<open>found\<close> is closed.\<close>

fun coll_holds :: "coll_pc \<Rightarrow> bool" where
  "coll_holds C_not_started = False"
| "coll_holds C_Lock = False"
| "coll_holds (C_loop l) = True"
| "coll_holds (C_send l) = True"
| "coll_holds C_Unlock = True"
| "coll_holds C_returned = False"

fun main_holds :: "main_pc \<Rightarrow> bool" where
  "main_holds M_select = True"
| "main_holds (M_print hits) = True"
| "main_holds M_exit = True"
| "main_holds other = False"

fun closed_by :: "main_pc \<Rightarrow> bool" where
  "closed_by M_recv = True"
| "closed_by M_Lock = True"
| "closed_by M_select = True"
| "closed_by (M_print hits) = True"
| "closed_by M_exit = True"
| "closed_by other = False"

fun took_results :: "main_pc \<Rightarrow> bool" where
  "took_results (M_print hits) = True"
| "took_results M_exit = True"
| "took_results other = False"

text \<open>What \<open>main\<close> prints for a list of hits; nothing at all for no hit.\<close>

definition output_of :: "variant \<Rightarrow> FoundString list \<Rightarrow> string" where
  "output_of v hits =
     (if hits = [] then []
      else case v of Unbuffered \<Rightarrow> concat (map Println_hit hits) | Mutexed \<Rightarrow> Println_hits hits)"

text \<open>
  The collector's list is what was handed over on \<open>found\<close>; it is sent on \<open>results\<close>
  only after \<open>found\<close> is closed; the buffer of \<open>results\<close> holds that list or nothing.
\<close>

fun coll_ok :: "env \<Rightarrow> state \<Rightarrow> coll_pc \<Rightarrow> bool" where
  "coll_ok E s C_not_started = (driver s = M_go_collect \<and> results s = [])"
| "coll_ok E s C_Lock = (variant E = Mutexed \<and> emitted s = [] \<and> results s = [])"
| "coll_ok E s (C_loop l) = (emitted s = l \<and> results s = [])"
| "coll_ok E s (C_send l) = (emitted s = l \<and> l \<noteq> [] \<and> found_closed s \<and> results s = [])"
| "coll_ok E s C_Unlock =
     (variant E = Mutexed \<and> results s = (if emitted s = [] then [] else [emitted s]))"
| "coll_ok E s C_returned =
     (took_results (driver s) \<or> variant E = Unbuffered
      \<or> results s = (if emitted s = [] then [] else [emitted s]))"

fun main_ok :: "env \<Rightarrow> state \<Rightarrow> main_pc \<Rightarrow> bool" where
  "main_ok E s (M_print hits) =
     (hits = emitted s \<and> hits \<noteq> [] \<and> collector s = C_returned \<and> stdout s = [])"
| "main_ok E s M_exit =
     (stdout s = output_of (variant E) (emitted s)
      \<and> (variant E = Unbuffered \<longrightarrow> emitted s \<noteq> []))"
| "main_ok E s M_go_collect = (collector s = C_not_started \<and> stdout s = [])"
| "main_ok E s M_recv = (variant E = Unbuffered \<and> stdout s = [])"
| "main_ok E s M_Lock = (variant E = Mutexed \<and> stdout s = [])"
| "main_ok E s M_select = (variant E = Mutexed \<and> stdout s = [])"
| "main_ok E s other = (stdout s = [])"

text \<open>The only panic that can happen is the one of a missing argument.\<close>

fun arg_panic :: "env \<Rightarrow> main_pc \<Rightarrow> runtime_error option" where
  "arg_panic E M_arg1 =
     (if 1 < length (Args E) then None else Some (IndexOutOfRange 1 (length (Args E))))"
| "arg_panic E (M_arg2 ss) =
     (if 2 < length (Args E) then None else Some (IndexOutOfRange 2 (length (Args E))))"
| "arg_panic E other = None"

definition inv_coll :: "env \<Rightarrow> state \<Rightarrow> bool" where
  "inv_coll E s \<longleftrightarrow>
     coll_ok E s (collector s)
   \<and> main_ok E s (driver s)
   \<and> (found_closed s \<longleftrightarrow> closed_by (driver s))
   \<and> (variant E = Unbuffered \<longrightarrow> results s = [])
   \<and> (variant E = Mutexed \<longrightarrow>
        (resultsLock s \<longleftrightarrow> coll_holds (collector s) \<or> main_holds (driver s))
        \<and> \<not> (coll_holds (collector s) \<and> main_holds (driver s)))
   \<and> (fatal s = None \<or> fatal s = arg_panic E (driver s))"

definition Inv :: "env \<Rightarrow> state \<Rightarrow> bool" where
  "Inv E s \<longleftrightarrow> inv_wg s \<and> inv_tasks E s \<and> inv_coll E s"

section \<open>Example runs\<close>

text \<open>
  The invocation \<open>mgrep hello root\<close> on a given tree; the tree with the one file
  \<open>a.txt\<close> of three lines, and its two matches; trees with unreadable entries (in the
  order of their names, as \<open>os.ReadDir\<close> lists them) and with no match; invocations
  with arguments missing.
\<close>

definition scenario :: "variant \<Rightarrow> fsnode \<Rightarrow> env" where
  "scenario v t = \<lparr>variant = v, Args = [''mgrep'', ''hello'', ''root''], searchDirTree = t\<rparr>"

definition hello_tree :: fsnode where
  "hello_tree =
     Dir [(''a.txt'', File (''hello'' @ [newline] @ ''world'' @ [newline] @ ''hello again''))]"

definition hello_0 :: FoundString where
  "hello_0 = \<lparr>path = ''root/a.txt'', index = 0, line = ''hello''\<rparr>"

definition hello_2 :: FoundString where
  "hello_2 = \<lparr>path = ''root/a.txt'', index = 2, line = ''hello again''\<rparr>"

definition unreadable_tree :: fsnode where
  "unreadable_tree = Dir [(''a.txt'', NoReadFile), (''b.txt'', NoReadFile)]"

definition failing_tree :: fsnode where
  "failing_tree = Dir [(''a.txt'', NoReadFile), (''sub'', NoReadDir)]"

definition mixed_tree :: fsnode where
  "mixed_tree = Dir [(''a.txt'', File ''hello''), (''b.txt'', NoReadFile)]"

definition nomatch_tree :: fsnode where
  "nomatch_tree = Dir [(''sub'', Dir [(''b.txt'', File ''nomatch'')])]"

definition no_args :: "variant \<Rightarrow> env" where
  "no_args v = \<lparr>variant = v, Args = [''mgrep''], searchDirTree = hello_tree\<rparr>"

definition one_arg :: "variant \<Rightarrow> env" where
  "one_arg v = \<lparr>variant = v, Args = [''mgrep'', ''hello''], searchDirTree = hello_tree\<rparr>"

text \<open>
  \<open>sched_scan\<close>: \<open>main\<close> runs up to \<open>wg.Wait()\<close>, the collector gets a turn, the root
  task lists the directory and starts the file task, and the file task runs to its end.
  \<open>sched_main_first\<close>: the same on an empty directory, but \<open>main\<close> goes on through
  \<open>close(found)\<close> and \<open>resultsLock.Lock()\<close> before the collector has had any turn.
  \<open>sched_empty\<close>: a whole run on an empty directory. \<open>sched_failing\<close>: the root task
  starts two tasks and returns, and each of the two runs into its read error.
  \<open>sched_mixed\<close>: the same, but the first of the two tasks reads its file, hands its
  one match over and returns before the second runs into its read error.
\<close>

definition sched_scan :: "action list" where
  "sched_scan = [AMain, AMain, AMain, AMain, AMain, ACollect,
                 ATask 0, ATask 0, ATask 0, ATask 0,
                 ATask 1, ATask 1, ATask 1, ATask 1, ATask 1]"

definition sched_main_first :: "action list" where
  "sched_main_first = [AMain, AMain, AMain, AMain, AMain, ATask 0, ATask 0, AMain, AMain, AMain]"

definition sched_empty :: "action list" where
  "sched_empty = [AMain, AMain, AMain, AMain, AMain, ACollect, ATask 0, ATask 0,
                  AMain, AMain, ACollect, ACollect, AMain, AMain]"

definition sched_failing :: "action list" where
  "sched_failing = [AMain, AMain, AMain, AMain, AMain, ACollect,
                    ATask 0, ATask 0, ATask 0, ATask 0, ATask 0, ATask 0, ATask 1, ATask 2]"

definition sched_mixed :: "action list" where
  "sched_mixed = [AMain, AMain, AMain, AMain, AMain, ACollect,
                  ATask 0, ATask 0, ATask 0, ATask 0, ATask 0, ATask 0,
                  ATask 1, ATask 1, ATask 1, ATask 2]"

section \<open>Splitting and containment\<close>

lemma Split_Nil: "Split [] = [[]]"
  by (simp add: Split.simps)

lemma Split_newline: "Split (newline # cs) = [] # Split cs"
  by (subst Split.simps) simp

lemma Split_other:
  assumes "c \<noteq> newline"
  shows "Split (c # cs) = (c # hd (Split cs)) # tl (Split cs)"
proof -
  have unfolded: "Split cs = (if newline \<in> set cs
      then takeWhile (\<lambda>c. c \<noteq> newline) cs # Split (tl (dropWhile (\<lambda>c. c \<noteq> newline) cs))
      else [cs])" by (rule Split.simps)
  show ?thesis using assms by (subst Split.simps) (simp add: unfolded)
qed

lemma Split_not_Nil: "Split s \<noteq> []"
  by (subst Split.simps) simp

lemma join_lines_Cons: "ls \<noteq> [] \<Longrightarrow> join_lines (l # ls) = l @ [newline] @ join_lines ls"
  by (cases ls) simp_all

lemma join_lines_hd: "ls \<noteq> [] \<Longrightarrow> join_lines ((c # hd ls) # tl ls) = c # join_lines ls"
  by (cases ls rule: join_lines.cases) simp_all

lemma join_lines_Split: "join_lines (Split s) = s"
proof (induction s)
  case Nil
  show ?case by (simp add: Split_Nil)
next
  case (Cons c cs)
  show ?case
  proof (cases "c = newline")
    case True
    then show ?thesis using Cons by (simp add: Split_newline join_lines_Cons Split_not_Nil)
  next
    case False
    then show ?thesis using Cons by (simp add: Split_other join_lines_hd Split_not_Nil)
  qed
qed

lemma Split_no_newline: "l \<in> set (Split s) \<Longrightarrow> newline \<notin> set l"
proof (induction s arbitrary: l)
  case Nil
  then show ?case by (simp add: Split_Nil)
next
  case (Cons c cs)
  show ?case
  proof (cases "c = newline")
    case True
    then show ?thesis using Cons by (auto simp: Split_newline)
  next
    case False
    have ne: "Split cs \<noteq> []" by (rule Split_not_Nil)
    then have hd_in: "hd (Split cs) \<in> set (Split cs)" by simp
    from Cons.prems False have "l = c # hd (Split cs) \<or> l \<in> set (tl (Split cs))"
      by (simp add: Split_other)
    then show ?thesis
    proof
      assume "l = c # hd (Split cs)"
      then show ?thesis using False Cons.IH [OF hd_in] by simp
    next
      assume "l \<in> set (tl (Split cs))"
      then have "l \<in> set (Split cs)" using ne by (metis list.set_sel(2))
      then show ?thesis by (rule Cons.IH)
    qed
  qed
qed

lemma Contains_sublist: "Contains s substr \<longleftrightarrow> sublist substr s"
  by (induction s) (auto simp: sublist_Cons_right)

lemma range_hits_eq:
  "range_hits p ss k ls =
     map (\<lambda>(i, l). \<lparr>path = p, index = i, line = l\<rparr>)
       (filter (\<lambda>(i, l). sublist ss l) (enumerate k ls))"
  by (induction ls arbitrary: k) (simp_all add: Contains_sublist)

text \<open>
  \<open>range_hits\<close> is what the steps of a file task do: a file task at the head of its
  loop that is given one turn per remaining line, and one more to return, hands the
  collector exactly \<open>range_hits\<close> of the remaining lines, in that order.
\<close>

lemma file_task_in_order:
  assumes "i < length (tasks s)" "tasks s ! i = parseFile_loop p ss k ls"
    and "collector s = C_loop list" "\<not> found_closed s" "driver s \<noteq> M_exit" "fatal s = None"
    and "0 < wg s"
  shows "collector (run E (replicate (Suc (length ls)) (ATask i)) s) = C_loop (list @ range_hits p ss k ls)
       \<and> tasks (run E (replicate (Suc (length ls)) (ATask i)) s) ! i = Finished"
  using assms
proof (induction ls arbitrary: s k list)
  case Nil
  then show ?case by (simp add: run_def step_def task_return_def)
next
  case (Cons l ls)
  let ?s' = "step E (ATask i) s"
  show ?case
  proof (cases "Contains l ss")
    case True
    have s': "?s' = s\<lparr>collector := C_loop (list @ [\<lparr>path = p, index = k, line = l\<rparr>]),
        emitted := emitted s @ [\<lparr>path = p, index = k, line = l\<rparr>],
        tasks := (tasks s)[i := parseFile_loop p ss (Suc k) ls]\<rparr>"
      using Cons.prems True by (simp add: step_def send_found_def)
    have "collector (run E (replicate (Suc (length ls)) (ATask i)) ?s')
        = C_loop ((list @ [\<lparr>path = p, index = k, line = l\<rparr>]) @ range_hits p ss (Suc k) ls)
        \<and> tasks (run E (replicate (Suc (length ls)) (ATask i)) ?s') ! i = Finished"
      using Cons.prems by (intro Cons.IH) (simp_all add: s')
    then show ?thesis using True by (simp add: run_def)
  next
    case False
    have s': "?s' = s\<lparr>tasks := (tasks s)[i := parseFile_loop p ss (Suc k) ls]\<rparr>"
      using Cons.prems False by (simp add: step_def set_task_def)
    have "collector (run E (replicate (Suc (length ls)) (ATask i)) ?s')
        = C_loop (list @ range_hits p ss (Suc k) ls)
        \<and> tasks (run E (replicate (Suc (length ls)) (ATask i)) ?s') ! i = Finished"
      using Cons.prems by (intro Cons.IH) (simp_all add: s')
    then show ?thesis using False by (simp add: run_def)
  qed
qed

section \<open>The line scanner\<close>

text \<open>
  Claim C6. For every file content and every non-empty search string: the content is cut
  into lines at the newline byte and nowhere else (joining the lines with newlines gives
  the content back, and no line holds a newline); the file task emits exactly the
  (index, text) pairs of the lines that have the search string as a literal infix
  (byte for byte, so case-sensitive), in file order; and an empty file gives no match.
\<close>

theorem C6_line_scanner:
  assumes "searchString \<noteq> []"
  shows "join_lines (Split fileData) = fileData
       \<and> (\<forall>l \<in> set (Split fileData). newline \<notin> set l)
       \<and> parseFile_hits p searchString fileData =
           map (\<lambda>(i, l). \<lparr>path = p, index = i, line = l\<rparr>)
             (filter (\<lambda>(i, l). sublist searchString l) (enumerate 0 (Split fileData)))
       \<and> parseFile_hits p searchString [] = []"
proof -
  have empty: "parseFile_hits p searchString [] = []"
    using assms by (simp add: parseFile_hits_def Split_Nil)
  show ?thesis
    using empty by (simp add: join_lines_Split Split_no_newline parseFile_hits_def range_hits_eq)
qed

theorem C6_line_scanner_witness:
  "''lo'' \<noteq> []
   \<and> parseFile_hits ''f'' ''lo'' (''hello'' @ [newline] @ ''World'' @ [newline] @ ''soLO solo'') =
       [\<lparr>path = ''f'', index = 0, line = ''hello''\<rparr>,
        \<lparr>path = ''f'', index = 2, line = ''soLO solo''\<rparr>]
   \<and> parseFile_hits ''f'' ''lo'' (''hello'' @ [newline] @ ''World'' @ [newline] @ ''soLO solo'') =
       map (\<lambda>(i, l). \<lparr>path = ''f'', index = i, line = l\<rparr>)
         (filter (\<lambda>(i, l). sublist ''lo'' l)
           (enumerate 0 (Split (''hello'' @ [newline] @ ''World'' @ [newline] @ ''soLO solo''))))
   \<and> parseFile_hits ''f'' ''lo'' [] = []"
proof -
  have ne: "''lo'' \<noteq> []" by simp
  have computed:
    "parseFile_hits ''f'' ''lo'' (''hello'' @ [newline] @ ''World'' @ [newline] @ ''soLO solo'') =
       [\<lparr>path = ''f'', index = 0, line = ''hello''\<rparr>,
        \<lparr>path = ''f'', index = 2, line = ''soLO solo''\<rparr>]"
    by code_simp
  show ?thesis
    using C6_line_scanner [OF ne, of "''hello'' @ [newline] @ ''World'' @ [newline] @ ''soLO solo''" "''f''"]
      computed by simp
qed

section \<open>The empty search string\<close>

text \<open>
  Claim C10. With the empty search string \<open>strings.Contains\<close> holds of every line, so a
  file task sends at every line it visits and emits every line of its file, with its
  index, and these are the matches a readable file contributes to those of the tree;
  and \<open>main\<close> does not reject an empty search string: after reading both arguments
  it goes on to register the root directory task, in both programs.
\<close>

theorem C10_empty_search_string:
  "Contains l []
   \<and> parseFile_hits p [] fileData =
       map (\<lambda>(i, l). \<lparr>path = p, index = i, line = l\<rparr>) (enumerate 0 (Split fileData))
   \<and> length (parseFile_hits p [] fileData) = length (Split fileData)
   \<and> file_hits p [] (File fileData) =
       mset (map (\<lambda>(i, l). \<lparr>path = p, index = i, line = l\<rparr>) (enumerate 0 (Split fileData)))
   \<and> task_step i (parseFile_loop p [] k (l # ls)) s =
       send_found i \<lparr>path = p, index = k, line = l\<rparr> (parseFile_loop p [] (Suc k) ls) s
   \<and> driver (execution \<lparr>variant = v, Args = [prog, [], dir], searchDirTree = t\<rparr>
        [AMain, AMain, AMain]) = M_Add [] dir
   \<and> fatal (execution \<lparr>variant = v, Args = [prog, [], dir], searchDirTree = t\<rparr>
        [AMain, AMain, AMain]) = None"
proof -
  have all_lines: "parseFile_hits p [] fileData =
       map (\<lambda>(i, l). \<lparr>path = p, index = i, line = l\<rparr>) (enumerate 0 (Split fileData))"
    by (simp add: parseFile_hits_def range_hits_eq)
  have proceeds: "execution \<lparr>variant = v, Args = [prog, [], dir], searchDirTree = t\<rparr>
        [AMain, AMain, AMain] = init\<lparr>collector := (case v of Unbuffered \<Rightarrow> C_loop [] | Mutexed \<Rightarrow> C_Lock),
           driver := M_Add [] dir\<rparr>"
    by (simp add: execution_def run_def step_def main_step_def init_def)
  show ?thesis
    by (simp add: all_lines proceeds Contains_sublist init_def)
qed

section \<open>Sums over the task pool\<close>

lemma total_at: "i < length ts \<Longrightarrow> sum_list (map f ts) = f (ts ! i) + others f ts i"
proof -
  assume i: "i < length ts"
  have "sum_list (map f ts) = sum_list (map f (take i ts @ ts ! i # drop (Suc i) ts))"
    using id_take_nth_drop [OF i] by simp
  then show ?thesis by (simp add: others_def ac_simps)
qed

lemma total_upd: "i < length ts \<Longrightarrow> sum_list (map f (ts[i := t])) = f t + others f ts i"
  by (simp add: upd_conv_take_nth_drop others_def ac_simps)

lemma weight_0: "weight t = 0 \<longleftrightarrow> t = Finished"
  by (cases t) simp_all

lemma all_Finished: "sum_list (map weight ts) = 0 \<Longrightarrow> i < length ts \<Longrightarrow> ts ! i = Finished"
  by (simp add: weight_0 [symmetric] del: weight.simps) 

lemma inv_wg_init: "inv_wg init"
  by (simp add: inv_wg_def init_def total_def)

lemma inv_wg_main: "inv_wg s \<Longrightarrow> inv_wg (main_step E s)"
  by (cases "driver s")
     (auto simp: inv_wg_def main_step_def total_def wg_Add_def split: coll_pc.splits list.splits variant.splits)

lemma inv_wg_collect: "inv_wg s \<Longrightarrow> inv_wg (collectStrings_step v s)"
  by (cases "collector s")
     (auto simp: inv_wg_def collectStrings_step_def total_def split: variant.splits)

lemma inv_wg_task:
  assumes "inv_wg s" "i < length (tasks s)"
  shows "inv_wg (task_step i (tasks s ! i) s)"
proof -
  have sp: "spawned (driver s)" using assms by (auto simp: inv_wg_def)
  note at = total_at [OF assms(2), of weight]
  show ?thesis
  proof (cases "past_Wait (driver s)")
    case True
    then have "tasks s ! i = Finished"
      using assms by (intro all_Finished) (auto simp: inv_wg_def total_def)
    then show ?thesis using assms by simp
  next
    case False
    show ?thesis
    proof (cases "tasks s ! i")
      case (parseDir_entry p ss n)
      then show ?thesis using assms sp False at
        by (cases "ReadDir p n") (auto simp: inv_wg_def total_def set_task_def total_upd)
    next
      case (parseDir_loop p ss es)
      then show ?thesis using assms sp False at
        by (cases es; cases "snd (hd es)")
          (auto simp: inv_wg_def total_def set_task_def total_upd task_return_def wg_Add_def)
    next
      case (parseDir_spawn p ss isdir cp n rest)
      then show ?thesis using assms sp False at
        by (auto simp: inv_wg_def total_def total_upd)
    next
      case (parseFile_entry p ss n)
      then show ?thesis using assms sp False at
        by (cases "ReadFile p n") (auto simp: inv_wg_def total_def set_task_def total_upd)
    next
      case (parseFile_loop p ss k ls)
      then show ?thesis using assms sp False at
        by (cases ls)
          (auto simp: inv_wg_def total_def set_task_def total_upd task_return_def send_found_def
                split: coll_pc.splits)
    next
      case (check_blocked e)
      then show ?thesis using assms by simp
    next
      case Finished
      then show ?thesis using assms by simp
    qed
  qed
qed

lemma inv_wg_step: "inv_wg s \<Longrightarrow> inv_wg (step E a s)"
  by (cases a) (simp_all add: step_def inv_wg_main inv_wg_collect inv_wg_task)

section \<open>The invariants hold in every execution\<close>

lemma descendants_not_dir: "\<not> IsDir n \<Longrightarrow> descendants n = 0"
  by (cases n) simp_all

lemma inv_tasks_init: "inv_tasks E init"
  by (simp add: inv_tasks_def init_def)

lemma inv_tasks_main: "inv_wg s \<Longrightarrow> inv_tasks E s \<Longrightarrow> inv_tasks E (main_step E s)"
  by (cases "driver s")
     (auto simp: inv_wg_def inv_tasks_def main_step_def total_def wg_Add_def tree_hits_def tree_size_def
           split: coll_pc.splits list.splits variant.splits)

lemma inv_tasks_collect: "inv_tasks E s \<Longrightarrow> inv_tasks E (collectStrings_step v s)"
  by (cases "collector s")
     (auto simp: inv_tasks_def collectStrings_step_def total_def split: variant.splits)

lemma inv_tasks_task:
  assumes "inv_wg s" "inv_tasks E s" "i < length (tasks s)"
  shows "inv_tasks E (task_step i (tasks s ! i) s)"
proof -
  have sp: "spawned (driver s)" using assms by (auto simp: inv_wg_def)
  note at = total_at [OF assms(3), of blocked] total_at [OF assms(3), of task_hits]
    total_at [OF assms(3), of task_unregistered] total_at [OF assms(3), of task_blocks]
  show ?thesis
  proof (cases "tasks s ! i")
    case (parseDir_entry p ss n)
    then show ?thesis using assms sp at
      by (cases n) (auto simp: inv_tasks_def total_def set_task_def total_upd)
  next
    case (parseDir_loop p ss es)
    show ?thesis
    proof (cases es)
      case Nil
      then show ?thesis using parseDir_loop assms sp at
        by (auto simp: inv_tasks_def total_def total_upd task_return_def)
    next
      case (Cons e rest)
      obtain name n where e: "e = (name, n)" by (cases e)
      show ?thesis using parseDir_loop Cons e assms sp at
        by (cases n)
           (auto simp: inv_tasks_def total_def set_task_def total_upd wg_Add_def)
    qed
  next
    case (parseDir_spawn p ss isdir cp n rest)
    then show ?thesis using assms sp at
      by (auto simp: inv_tasks_def total_def total_upd descendants_not_dir ac_simps)
  next
    case (parseFile_entry p ss n)
    then show ?thesis using assms sp at
      by (cases n) (auto simp: inv_tasks_def total_def set_task_def total_upd parseFile_hits_def)
  next
    case (parseFile_loop p ss k ls)
    then show ?thesis using assms sp at
      by (cases ls)
        (auto simp: inv_tasks_def total_def set_task_def total_upd task_return_def send_found_def
              split: coll_pc.splits)
  next
    case (check_blocked e)
    then show ?thesis using assms by simp
  next
    case Finished
    then show ?thesis using assms by simp
  qed
qed

lemma inv_coll_init: "inv_coll E init"
  by (simp add: inv_coll_def init_def)

lemma inv_coll_main:
  assumes "inv_wg s" "inv_coll E s"
  shows "inv_coll E (main_step E s)"
proof (cases "driver s")
  case M_go_collect
  then show ?thesis using assms
    by (cases "variant E") (auto simp: inv_wg_def inv_coll_def main_step_def)
next
  case M_arg1
  then show ?thesis using assms
    by (cases "collector s") (auto simp: inv_coll_def main_step_def)
next
  case (M_arg2 ss)
  then show ?thesis using assms
    by (cases "collector s") (auto simp: inv_coll_def main_step_def)
next
  case (M_Add ss dir)
  then show ?thesis using assms
    by (cases "collector s") (auto simp: inv_coll_def main_step_def wg_Add_def)
next
  case (M_go_parseDir ss dir)
  then show ?thesis using assms
    by (cases "collector s") (auto simp: inv_coll_def main_step_def)
next
  case M_Wait
  then show ?thesis using assms
    by (cases "collector s") (auto simp: inv_coll_def main_step_def)
next
  case M_close
  then show ?thesis using assms
    by (cases "collector s"; cases "variant E") (auto simp: inv_coll_def main_step_def)
next
  case M_recv
  then show ?thesis using assms
    by (cases "collector s"; cases "variant E") (auto simp: inv_coll_def main_step_def)
next
  case M_Lock
  then show ?thesis using assms
    by (cases "collector s"; cases "variant E") (auto simp: inv_coll_def main_step_def)
next
  case M_select
  then show ?thesis using assms
    by (cases "collector s"; cases "variant E"; cases "results s")
       (auto simp: inv_coll_def main_step_def output_of_def split: if_splits)
next
  case (M_print hits)
  then show ?thesis using assms
    by (cases "variant E") (auto simp: inv_coll_def main_step_def output_of_def)
next
  case M_exit
  then show ?thesis using assms by (simp add: main_step_def)
qed

lemma inv_coll_collect:
  assumes "inv_coll E s" "driver s \<noteq> M_exit"
  shows "inv_coll E (collectStrings_step (variant E) s)"
  using assms
  by (cases "collector s"; cases "variant E"; cases "driver s")
     (auto simp: inv_coll_def collectStrings_step_def)

lemma inv_coll_task:
  assumes "inv_wg s" "inv_coll E s" "i < length (tasks s)"
  shows "inv_coll E (task_step i (tasks s ! i) s)"
proof (cases "past_Wait (driver s)")
  case True
  then have "tasks s ! i = Finished"
    using assms by (intro all_Finished) (auto simp: inv_wg_def total_def)
  then show ?thesis using assms by simp
next
  case False
  have "spawned (driver s)" using assms by (auto simp: inv_wg_def)
  with False have drv: "driver s = M_Wait" by (cases "driver s") simp_all
  note at = total_at [OF assms(3), of weight]
  have keep: "inv_coll E (s\<lparr>tasks := ts\<rparr>)" for ts
    using assms(2) by (cases "collector s") (auto simp: inv_coll_def drv)
  show ?thesis
  proof (cases "tasks s ! i")
    case (parseDir_entry p ss n)
    then show ?thesis using keep by (simp add: set_task_def)
  next
    case (parseDir_loop p ss es)
    show ?thesis
    proof (cases es)
      case Nil
      then show ?thesis using parseDir_loop assms drv at
        by (cases "collector s") (auto simp: inv_coll_def inv_wg_def total_def task_return_def)
    next
      case (Cons e rest)
      obtain name n where e: "e = (name, n)" by (cases e)
      show ?thesis using parseDir_loop Cons e assms drv
        by (cases "collector s"; cases "Info p name n")
           (auto simp: inv_coll_def set_task_def wg_Add_def)
    qed
  next
    case (parseDir_spawn p ss isdir cp n rest)
    then show ?thesis using keep by simp
  next
    case (parseFile_entry p ss n)
    then show ?thesis using keep by (simp add: set_task_def)
  next
    case (parseFile_loop p ss k ls)
    show ?thesis
    proof (cases ls)
      case Nil
      then show ?thesis using parseFile_loop assms drv at
        by (cases "collector s") (auto simp: inv_coll_def inv_wg_def total_def task_return_def)
    next
      case (Cons l rest)
      then show ?thesis using parseFile_loop assms drv
        by (cases "collector s")
           (auto simp: inv_coll_def set_task_def send_found_def)
    qed
  next
    case (check_blocked e)
    then show ?thesis using assms by simp
  next
    case Finished
    then show ?thesis using assms by simp
  qed
qed

lemma Inv_init: "Inv E init"
  by (simp add: Inv_def inv_wg_init inv_tasks_init inv_coll_init)

lemma Inv_step: "Inv E s \<Longrightarrow> Inv E (step E a s)"
  by (cases a)
     (simp_all add: Inv_def step_def inv_wg_main inv_wg_collect inv_wg_task
        inv_tasks_main inv_tasks_collect inv_tasks_task
        inv_coll_main inv_coll_collect inv_coll_task)

lemma Inv_run: "Inv E s \<Longrightarrow> Inv E (run E sched s)"
  unfolding run_def by (induction sched arbitrary: s) (simp_all add: Inv_step)

lemma Inv_execution: "Inv E (execution E sched)"
  unfolding execution_def by (rule Inv_run [OF Inv_init])

section \<open>Consequences of the invariants\<close>

lemma closed_by_past_Wait: "closed_by d \<Longrightarrow> past_Wait d"
  by (cases d) simp_all

lemma past_Wait_spawned: "past_Wait d \<Longrightarrow> spawned d"
  by (cases d) simp_all

lemma after_Wait_Finished:
  assumes "Inv E s" "past_Wait (driver s)" "t \<in> set (tasks s)"
  shows "t = Finished"
proof -
  have sp: "spawned (driver s)" using assms(2) by (rule past_Wait_spawned)
  have "wg s = 0" and "wg s = int (total weight s) + (if spawned (driver s) then 0 else int (registered (driver s)))"
    using assms(1,2) by (simp_all add: Inv_def inv_wg_def)
  then have "sum_list (map weight (tasks s)) = 0" using sp by (simp add: total_def)
  then have "weight t = 0" using assms(3) by simp
  then show ?thesis by (simp add: weight_0)
qed

lemma total_Finished:
  assumes "\<And>t. t \<in> set (tasks s) \<Longrightarrow> t = Finished" "f Finished = 0"
  shows "total f s = 0"
proof -
  have zero: "(\<forall>t \<in> set ts. f t = 0) \<Longrightarrow> sum_list (map f ts) = 0" for ts
    by (induction ts) simp_all
  have "\<forall>t \<in> set (tasks s). f t = 0" using assms by auto
  then show ?thesis unfolding total_def by (rule zero)
qed

lemma after_Wait_complete:
  assumes "Inv E s" "past_Wait (driver s)"
  shows "mset (emitted s) = tree_hits E
       \<and> wg_adds s = tree_size (searchDirTree E)
       \<and> wg_dones s = tree_size (searchDirTree E)
       \<and> wg s = 0"
proof -
  note fin = after_Wait_Finished [OF assms]
  have b: "total blocked s = 0" by (rule total_Finished [OF fin]) simp_all
  have h: "total task_hits s = {#}" by (rule total_Finished [OF fin]) simp_all
  have u: "total task_unregistered s = 0" by (rule total_Finished [OF fin]) simp_all
  have sp: "spawned (driver s)" using assms(2) by (rule past_Wait_spawned)
  have "mset (emitted s) = tree_hits E \<and> wg_adds s = tree_size (searchDirTree E)"
    using assms(1) sp b h u by (simp add: Inv_def inv_tasks_def)
  moreover have "wg s = 0 \<and> wg s = int (wg_adds s) - int (wg_dones s)"
    using assms by (simp add: Inv_def inv_wg_def)
  ultimately show ?thesis by simp
qed

lemma closed_after_Wait: "Inv E s \<Longrightarrow> found_closed s \<Longrightarrow> past_Wait (driver s)"
  by (simp add: Inv_def inv_coll_def closed_by_past_Wait)

lemma hits_are_emitted: "Inv E s \<Longrightarrow> driver s = M_print hits \<Longrightarrow> hits = emitted s \<and> hits \<noteq> []"
  by (auto simp: Inv_def inv_coll_def)

lemma select_sees_results:
  assumes "Inv E s" "driver s = M_select"
  shows "variant E = Mutexed
       \<and> results s = (if emitted s = [] then [] else [emitted s])
       \<and> (collector s = C_Lock \<or> collector s = C_returned)
       \<and> (emitted s \<noteq> [] \<longrightarrow> collector s = C_returned)"
  using assms by (cases "collector s") (auto simp: Inv_def inv_coll_def)

lemma blocks_le_weight: "task_blocks t \<le> weight t"
  by (cases t) simp_all

lemma stuck_counter:
  assumes "Inv E s" "dir_blocks (searchDirTree E)"
  shows "\<not> past_Wait (driver s) \<and> (wg_adds s = 0 \<or> wg_dones s < wg_adds s)"
proof (cases "spawned (driver s)")
  case True
  then have "0 < total task_blocks s" using assms by (simp add: Inv_def inv_tasks_def)
  also have "total task_blocks s \<le> total weight s"
    unfolding total_def by (intro sum_list_mono blocks_le_weight)
  finally have "0 < wg s" using assms(1) True by (simp add: Inv_def inv_wg_def)
  then show ?thesis using assms(1) by (auto simp: Inv_def inv_wg_def)
next
  case False
  then have "\<not> past_Wait (driver s)" using past_Wait_spawned by blast
  moreover have "wg_dones s = 0" using assms(1) False by (simp add: Inv_def inv_wg_def)
  ultimately show ?thesis by auto
qed

lemma no_exit_without_hits:
  assumes "Inv E s" "variant E = Unbuffered" "tree_hits E = {#}"
  shows "driver s \<noteq> M_exit"
proof
  assume ex: "driver s = M_exit"
  then have "mset (emitted s) = {#}" using after_Wait_complete [OF assms(1)] assms(3) by simp
  moreover have "emitted s \<noteq> []" using assms(1,2) ex by (simp add: Inv_def inv_coll_def)
  ultimately show False by simp
qed

lemma missing_args_no_traversal:
  assumes "Inv E s" "length (Args E) < 3"
  shows "\<not> spawned (driver s) \<and> registered (driver s) = 0"
  using assms by (cases "driver s") (auto simp: Inv_def inv_tasks_def)

lemma run_fatal: "fatal s \<noteq> None \<Longrightarrow> run E sched s = s"
  unfolding run_def by (induction sched) (simp_all add: step_def)

lemma run_Cons: "run E (a # sched) s = run E sched (step E a s)"
  by (simp add: run_def)

lemma run_append: "run E (xs @ ys) s = run E ys (run E xs s)"
  by (simp add: run_def)

lemma missing_args_panic:
  assumes "length (Args E) < 3"
  shows "fatal (run E [AMain, AMain, AMain] init) =
           Some (IndexOutOfRange (if length (Args E) < 2 then 1 else 2) (length (Args E)))"
  using assms by (simp add: run_def step_def main_step_def init_def)

lemma Join_examples:
  "Join ''root'' ''a.txt'' = ''root/a.txt''"
  "Join ''root/'' ''a.txt'' = ''root/a.txt''"
  "Join ''.'' ''a.txt'' = ''a.txt''"
  "Join ''/'' ''etc'' = ''/etc''"
  "Join ''../x/./y'' ''..'' = ''../x''"
  by code_simp+

lemma hello_tree_hits: "tree_hits (scenario v hello_tree) = {#hello_0, hello_2#}"
  by (simp add: tree_hits_def scenario_def hello_tree_def Join_examples parseFile_hits_def
      hello_0_def hello_2_def Split.simps newline_def)

lemma no_output_before_exit: "Inv E s \<Longrightarrow> driver s \<noteq> M_exit \<Longrightarrow> stdout s = []"
  by (cases "driver s") (auto simp: Inv_def inv_coll_def)

text \<open>
  When \<open>main\<close> holds the list it has received, that list is the sequence of the matches
  handed over on \<open>found\<close>, its multiset is that of the matches of the tree, and every
  task has returned.
\<close>

lemma published_list_complete:
  assumes "driver (execution E sched) = M_print hits"
  shows "hits = emitted (execution E sched)
       \<and> mset hits = tree_hits E
       \<and> (\<forall>t \<in> set (tasks (execution E sched)). t = Finished)"
proof -
  note I = Inv_execution [of E sched]
  have pw: "past_Wait (driver (execution E sched))" using assms by simp
  show ?thesis
    using hits_are_emitted [OF I assms] after_Wait_complete [OF I pw] after_Wait_Finished [OF I pw]
    by simp
qed

text \<open>
  The collector is at its send on \<open>results\<close> only with the complete list and after
  \<open>found\<close> is closed. In the mutex variant, when \<open>main\<close> has acquired the mutex and
  at least one match was handed over, the collector has returned and \<open>results\<close> holds
  the complete list; \<open>results\<close> is empty at that point only if no match was handed
  over.
\<close>

lemma drain_before_publish:
  assumes "s = execution E sched"
  shows "(driver s = M_print hits \<longrightarrow>
            hits = emitted s \<and> found_closed s \<and> (\<forall>t \<in> set (tasks s). t = Finished))
       \<and> (collector s = C_send l \<longrightarrow>
            l = emitted s \<and> found_closed s \<and> (\<forall>t \<in> set (tasks s). t = Finished))
       \<and> (driver s = M_select \<longrightarrow>
            results s = (if emitted s = [] then [] else [emitted s])
            \<and> (emitted s \<noteq> [] \<longrightarrow> collector s = C_returned \<and> results s = [emitted s]))"
proof -
  have I: "Inv E s" unfolding assms by (rule Inv_execution)
  have closed: "found_closed s \<Longrightarrow> \<forall>t \<in> set (tasks s). t = Finished"
    using after_Wait_Finished [OF I closed_after_Wait [OF I]] by blast
  have print: "driver s = M_print hits \<Longrightarrow> hits = emitted s \<and> found_closed s"
    using I by (auto simp: Inv_def inv_coll_def)
  have send: "collector s = C_send l \<Longrightarrow> l = emitted s \<and> found_closed s"
    using I by (auto simp: Inv_def inv_coll_def)
  have sel: "driver s = M_select \<Longrightarrow>
      results s = (if emitted s = [] then [] else [emitted s])
      \<and> (emitted s \<noteq> [] \<longrightarrow> collector s = C_returned \<and> results s = [emitted s])"
    using select_sees_results [OF I] by simp
  show ?thesis using closed print send sel by blast
qed

section \<open>An emitted match that is never published\<close>

text \<open>
  Claim C1, on the tree with the readable file \<open>a.txt\<close> holding the line \<open>hello\<close> and
  the unreadable file \<open>b.txt\<close>. Under no schedule and in neither program does \<open>main\<close>
  get past \<open>wg.Wait()\<close>: it never holds a list received from the collector, and nothing
  is ever printed. In both programs, after the task of \<open>a.txt\<close> has handed its match
  over and returned and the task of \<open>b.txt\<close> has called \<open>check\<close> with its error, the
  match is in the collector's list, the task of \<open>b.txt\<close> stays at \<open>errors <- e\<close>,
  \<open>results\<close> is empty, no goroutine can move, and the runtime ends the process with
  status 2: the emitted match is in no published list.
\<close>

theorem C1_emitted_match_lost:
  "\<not> past_Wait (driver (execution (scenario v mixed_tree) sched))
   \<and> driver (execution (scenario v mixed_tree) sched) \<noteq> M_print hits
   \<and> stdout (execution (scenario v mixed_tree) sched) = []
   \<and> emitted (execution (scenario Unbuffered mixed_tree) sched_mixed) = [hello_0]
   \<and> collector (execution (scenario Unbuffered mixed_tree) sched_mixed) = C_loop [hello_0]
   \<and> tasks (execution (scenario Unbuffered mixed_tree) sched_mixed) =
       [Finished, Finished, check_blocked (PathError ''root/b.txt'')]
   \<and> deadlocked (scenario Unbuffered mixed_tree)
       (execution (scenario Unbuffered mixed_tree) sched_mixed)
   \<and> exit_status (scenario Unbuffered mixed_tree)
       (execution (scenario Unbuffered mixed_tree) sched_mixed) = Some 2
   \<and> emitted (execution (scenario Mutexed mixed_tree) sched_mixed) = [hello_0]
   \<and> collector (execution (scenario Mutexed mixed_tree) sched_mixed) = C_loop [hello_0]
   \<and> results (execution (scenario Mutexed mixed_tree) sched_mixed) = []
   \<and> deadlocked (scenario Mutexed mixed_tree)
       (execution (scenario Mutexed mixed_tree) sched_mixed)
   \<and> exit_status (scenario Mutexed mixed_tree)
       (execution (scenario Mutexed mixed_tree) sched_mixed) = Some 2"
proof -
  have blocks: "dir_blocks (searchDirTree (scenario v mixed_tree))"
    by (simp add: scenario_def mixed_tree_def)
  have never: "\<not> past_Wait (driver (execution (scenario v mixed_tree) sched))"
    using stuck_counter [OF Inv_execution blocks] by simp
  then have no_list: "driver (execution (scenario v mixed_tree) sched) \<noteq> M_print hits"
    and no_exit: "driver (execution (scenario v mixed_tree) sched) \<noteq> M_exit"
    by auto
  have silent: "stdout (execution (scenario v mixed_tree) sched) = []"
    by (rule no_output_before_exit [OF Inv_execution no_exit])
  have unbuffered:
    "emitted (execution (scenario Unbuffered mixed_tree) sched_mixed) = [hello_0]
     \<and> collector (execution (scenario Unbuffered mixed_tree) sched_mixed) = C_loop [hello_0]
     \<and> tasks (execution (scenario Unbuffered mixed_tree) sched_mixed) =
         [Finished, Finished, check_blocked (PathError ''root/b.txt'')]
     \<and> deadlocked (scenario Unbuffered mixed_tree)
         (execution (scenario Unbuffered mixed_tree) sched_mixed)
     \<and> exit_status (scenario Unbuffered mixed_tree)
         (execution (scenario Unbuffered mixed_tree) sched_mixed) = Some 2"
    by code_simp
  have mutexed:
    "emitted (execution (scenario Mutexed mixed_tree) sched_mixed) = [hello_0]
     \<and> collector (execution (scenario Mutexed mixed_tree) sched_mixed) = C_loop [hello_0]
     \<and> results (execution (scenario Mutexed mixed_tree) sched_mixed) = []
     \<and> deadlocked (scenario Mutexed mixed_tree)
         (execution (scenario Mutexed mixed_tree) sched_mixed)
     \<and> exit_status (scenario Mutexed mixed_tree)
         (execution (scenario Mutexed mixed_tree) sched_mixed) = Some 2"
    by code_simp
  show ?thesis using never no_list silent unbuffered mutexed by blast
qed

section \<open>The driver's lock and the collector's lock\<close>

text \<open>
  Claim C2, in the mutex variant on an empty directory, with \<open>main\<close> scheduled ahead of
  the collector goroutine. \<open>main\<close> returns from \<open>wg.Wait()\<close>, closes \<open>found\<close> and
  acquires the mutex while the collector goroutine is still at its first statement
  \<open>lock.Lock()\<close>: the driver's acquisition does not come after the collector's, and
  the collector goroutine is not done when \<open>main\<close> stands at its \<open>select\<close>. A turn of
  the collector then changes nothing, since \<open>main\<close> never releases the mutex; \<open>main\<close>
  finds \<open>results\<close> empty and returns with status 0, the collector goroutine still at
  \<open>lock.Lock()\<close>.
\<close>

theorem C2_driver_locks_before_collector:
  "driver (execution (scenario Mutexed (Dir [])) sched_main_first) = M_select
   \<and> collector (execution (scenario Mutexed (Dir [])) sched_main_first) = C_Lock
   \<and> resultsLock (execution (scenario Mutexed (Dir [])) sched_main_first)
   \<and> found_closed (execution (scenario Mutexed (Dir [])) sched_main_first)
   \<and> results (execution (scenario Mutexed (Dir [])) sched_main_first) = []
   \<and> step (scenario Mutexed (Dir [])) ACollect
       (execution (scenario Mutexed (Dir [])) sched_main_first)
       = execution (scenario Mutexed (Dir [])) sched_main_first
   \<and> driver (execution (scenario Mutexed (Dir [])) (sched_main_first @ [ACollect, AMain])) = M_exit
   \<and> collector (execution (scenario Mutexed (Dir [])) (sched_main_first @ [ACollect, AMain]))
       = C_Lock
   \<and> exit_status (scenario Mutexed (Dir []))
       (execution (scenario Mutexed (Dir [])) (sched_main_first @ [ACollect, AMain])) = Some 0"
  by code_simp

section \<open>Unreadable files\<close>

text \<open>
  Claim C3, on the tree with the two unreadable files \<open>a.txt\<close> and \<open>b.txt\<close>. Under no
  schedule and in neither program does \<open>main\<close> get past \<open>wg.Wait()\<close>, so it never
  returns. In \<open>main.go\<close>, after the root task has started both file tasks and returned,
  and each file task has called \<open>check\<close> with its error, both file tasks stay at
  \<open>errors <- e\<close>, the counter stays at 2, no goroutine can move, and the runtime ends
  the process with status 2.
\<close>

theorem C3_unreadable_files_deadlock:
  "\<not> past_Wait (driver (execution (scenario v unreadable_tree) sched))
   \<and> driver (execution (scenario v unreadable_tree) sched) \<noteq> M_exit
   \<and> tasks (execution (scenario Unbuffered unreadable_tree) sched_failing) =
       [Finished, check_blocked (PathError ''root/a.txt''), check_blocked (PathError ''root/b.txt'')]
   \<and> driver (execution (scenario Unbuffered unreadable_tree) sched_failing) = M_Wait
   \<and> wg (execution (scenario Unbuffered unreadable_tree) sched_failing) = 2
   \<and> deadlocked (scenario Unbuffered unreadable_tree)
       (execution (scenario Unbuffered unreadable_tree) sched_failing)
   \<and> exit_status (scenario Unbuffered unreadable_tree)
       (execution (scenario Unbuffered unreadable_tree) sched_failing) = Some 2"
proof -
  have blocks: "dir_blocks (searchDirTree (scenario v unreadable_tree))"
    by (simp add: scenario_def unreadable_tree_def)
  have never: "\<not> past_Wait (driver (execution (scenario v unreadable_tree) sched))"
    using stuck_counter [OF Inv_execution blocks] by simp
  then have no_exit: "driver (execution (scenario v unreadable_tree) sched) \<noteq> M_exit"
    by auto
  have concrete:
    "tasks (execution (scenario Unbuffered unreadable_tree) sched_failing) =
       [Finished, check_blocked (PathError ''root/a.txt''), check_blocked (PathError ''root/b.txt'')]
     \<and> driver (execution (scenario Unbuffered unreadable_tree) sched_failing) = M_Wait
     \<and> wg (execution (scenario Unbuffered unreadable_tree) sched_failing) = 2
     \<and> deadlocked (scenario Unbuffered unreadable_tree)
         (execution (scenario Unbuffered unreadable_tree) sched_failing)
     \<and> exit_status (scenario Unbuffered unreadable_tree)
         (execution (scenario Unbuffered unreadable_tree) sched_failing) = Some 2"
    by code_simp
  show ?thesis using never no_exit concrete by blast
qed

section \<open>No match\<close>

text \<open>
  Claim C4, on an empty search directory and on the tree \<open>sub/b.txt\<close> without a match.
  In \<open>main.go\<close> no schedule lets \<open>main\<close> return; on the empty directory the run ends
  with \<open>main\<close> at \<open>hits := <-results\<close>, the collector returned without sending, no
  goroutine able to move, and the runtime ending the process with status 2. The same
  schedule in the mutex variant ends with status 0 and no output.
\<close>

theorem C4_no_match_deadlock:
  "driver (execution (scenario Unbuffered (Dir [])) sched) \<noteq> M_exit
   \<and> driver (execution (scenario Unbuffered nomatch_tree) sched) \<noteq> M_exit
   \<and> driver (execution (scenario Unbuffered (Dir [])) sched_empty) = M_recv
   \<and> collector (execution (scenario Unbuffered (Dir [])) sched_empty) = C_returned
   \<and> deadlocked (scenario Unbuffered (Dir [])) (execution (scenario Unbuffered (Dir [])) sched_empty)
   \<and> exit_status (scenario Unbuffered (Dir []))
       (execution (scenario Unbuffered (Dir [])) sched_empty) = Some 2
   \<and> exit_status (scenario Mutexed (Dir []))
       (execution (scenario Mutexed (Dir [])) sched_empty) = Some 0
   \<and> stdout (execution (scenario Mutexed (Dir [])) sched_empty) = []"
proof -
  have e: "driver (execution (scenario Unbuffered (Dir [])) sched) \<noteq> M_exit"
    by (rule no_exit_without_hits [OF Inv_execution]) (simp_all add: scenario_def tree_hits_def)
  have n: "driver (execution (scenario Unbuffered nomatch_tree) sched) \<noteq> M_exit"
    by (rule no_exit_without_hits [OF Inv_execution])
       (simp_all add: scenario_def tree_hits_def nomatch_tree_def parseFile_hits_def Split.simps
          newline_def)
  have concrete:
    "driver (execution (scenario Unbuffered (Dir [])) sched_empty) = M_recv
     \<and> collector (execution (scenario Unbuffered (Dir [])) sched_empty) = C_returned
     \<and> deadlocked (scenario Unbuffered (Dir [])) (execution (scenario Unbuffered (Dir [])) sched_empty)
     \<and> exit_status (scenario Unbuffered (Dir []))
         (execution (scenario Unbuffered (Dir [])) sched_empty) = Some 2
     \<and> exit_status (scenario Mutexed (Dir []))
         (execution (scenario Mutexed (Dir [])) sched_empty) = Some 0
     \<and> stdout (execution (scenario Mutexed (Dir [])) sched_empty) = []"
    by code_simp
  show ?thesis using e n concrete by blast
qed

section \<open>Missing arguments\<close>

text \<open>
  Claim C5, as amended. With fewer than two arguments after the program name, in either
  program and under every schedule: no task is ever started, no unit of work is ever
  registered, nothing is printed, and \<open>main\<close> never returns normally; once \<open>main\<close>
  has taken its first three steps, the process has been ended by the run-time panic
  ``index out of range'' at the first missing element of \<open>os.Args\<close>, with status 2.
\<close>

theorem C5_missing_arguments_panic:
  assumes "length (Args E) < 3"
  shows "tasks (execution E sched) = []
       \<and> wg (execution E sched) = 0
       \<and> wg_adds (execution E sched) = 0
       \<and> stdout (execution E sched) = []
       \<and> driver (execution E sched) \<noteq> M_exit
       \<and> fatal (execution E (AMain # AMain # AMain # sched)) =
           Some (IndexOutOfRange (if length (Args E) < 2 then 1 else 2) (length (Args E)))
       \<and> exit_status E (execution E (AMain # AMain # AMain # sched)) = Some 2"
proof -
  note I = Inv_execution [of E sched]
  from missing_args_no_traversal [OF I assms]
  have ns: "\<not> spawned (driver (execution E sched))"
    and reg: "registered (driver (execution E sched)) = 0" by simp_all
  have quiet: "tasks (execution E sched) = [] \<and> wg_adds (execution E sched) = 0
      \<and> wg (execution E sched) = 0"
    using I ns reg by (simp add: Inv_def inv_wg_def total_def)
  have ne: "driver (execution E sched) \<noteq> M_exit" using ns by auto
  have out: "stdout (execution E sched) = []"
    using I ne by (cases "driver (execution E sched)") (auto simp: Inv_def inv_coll_def)
  have f3: "fatal (run E [AMain, AMain, AMain] init) =
      Some (IndexOutOfRange (if length (Args E) < 2 then 1 else 2) (length (Args E)))"
    by (rule missing_args_panic [OF assms])
  have split: "execution E (AMain # AMain # AMain # sched) = run E sched (run E [AMain, AMain, AMain] init)"
    using run_append [of E "[AMain, AMain, AMain]" sched init] by (simp add: execution_def)
  have same: "execution E (AMain # AMain # AMain # sched) = run E [AMain, AMain, AMain] init"
    unfolding split using f3 by (intro run_fatal) simp
  have fatal: "fatal (execution E (AMain # AMain # AMain # sched)) =
      Some (IndexOutOfRange (if length (Args E) < 2 then 1 else 2) (length (Args E)))"
    using same f3 by simp
  then have "exit_status E (execution E (AMain # AMain # AMain # sched)) = Some 2"
    by (simp add: exit_status_def)
  with quiet ne out fatal show ?thesis by simp
qed

theorem C5_missing_arguments_panic_witness:
  "length (Args (no_args Unbuffered)) < 3
   \<and> tasks (execution (no_args Unbuffered) [AMain, ACollect, AMain, ATask 0]) = []
   \<and> wg_adds (execution (no_args Unbuffered) [AMain, ACollect, AMain, ATask 0]) = 0
   \<and> stdout (execution (no_args Unbuffered) [AMain, ACollect, AMain, ATask 0]) = []
   \<and> fatal (execution (no_args Unbuffered) [AMain, AMain, AMain, AMain, ACollect, AMain, ATask 0])
       = Some (IndexOutOfRange 1 1)
   \<and> exit_status (no_args Unbuffered)
       (execution (no_args Unbuffered) [AMain, AMain, AMain, AMain, ACollect, AMain, ATask 0]) = Some 2"
proof -
  have short: "length (Args (no_args Unbuffered)) < 3" by (simp add: no_args_def)
  have len: "length (Args (no_args Unbuffered)) = 1" by (simp add: no_args_def)
  show ?thesis
    using C5_missing_arguments_panic [OF short, of "[AMain, ACollect, AMain, ATask 0]"] short len
    by simp
qed

text \<open>
  The claim as first stated promises a usage message. With no argument, and with one,
  the process is ended by the run-time panic and the program has printed nothing.
\<close>

theorem C5_counterexample:
  "fatal (execution (no_args Unbuffered) [AMain, AMain]) = Some (IndexOutOfRange 1 1)
   \<and> stdout (execution (no_args Unbuffered) [AMain, AMain]) = []
   \<and> exit_status (no_args Unbuffered) (execution (no_args Unbuffered) [AMain, AMain]) = Some 2
   \<and> fatal (execution (one_arg Mutexed) [AMain, AMain, AMain]) = Some (IndexOutOfRange 2 2)
   \<and> stdout (execution (one_arg Mutexed) [AMain, AMain, AMain]) = []
   \<and> exit_status (one_arg Mutexed) (execution (one_arg Mutexed) [AMain, AMain, AMain]) = Some 2"
  by code_simp

section \<open>The scenario of one file\<close>

text \<open>
  Claim C7, as amended. For \<open>mgrep hello root\<close> in \<open>main.go\<close>, where \<open>root\<close> holds
  the one file \<open>a.txt\<close> with the lines \<open>hello\<close>, \<open>world\<close>, \<open>hello again\<close>: whenever
  \<open>main\<close> returns, the matches handed over are exactly the two matches
  (\<open>root/a.txt\<close>, index 0, \<open>hello\<close>) and (\<open>root/a.txt\<close>, index 2, \<open>hello again\<close>),
  and the output is their two blocks, which read \<open>Line 0:\<close> and \<open>Line 2:\<close>: the
  printed numbers are the 0-based indices of the lines.
\<close>

theorem C7_scenario_indices:
  assumes "driver (execution (scenario Unbuffered hello_tree) sched) = M_exit"
  shows "mset (emitted (execution (scenario Unbuffered hello_tree) sched)) = {#hello_0, hello_2#}
       \<and> stdout (execution (scenario Unbuffered hello_tree) sched) =
           concat (map Println_hit (emitted (execution (scenario Unbuffered hello_tree) sched)))
       \<and> index hello_0 = 0 \<and> index hello_2 = 2
       \<and> Println_hit hello_0 =
           ''Hit found in file root/a.txt'' @ [newline] @ ''Line 0: '' @ [newline] @ ''hello''
             @ [newline, newline]
       \<and> Println_hit hello_2 =
           ''Hit found in file root/a.txt'' @ [newline] @ ''Line 2: '' @ [newline] @ ''hello again''
             @ [newline, newline]"
proof -
  note I = Inv_execution [of "scenario Unbuffered hello_tree" sched]
  have pw: "past_Wait (driver (execution (scenario Unbuffered hello_tree) sched))"
    using assms by simp
  have hits: "mset (emitted (execution (scenario Unbuffered hello_tree) sched)) = {#hello_0, hello_2#}"
    using after_Wait_complete [OF I pw] by (simp add: hello_tree_hits)
  have out: "stdout (execution (scenario Unbuffered hello_tree) sched) =
      concat (map Println_hit (emitted (execution (scenario Unbuffered hello_tree) sched)))"
    using I assms by (auto simp: Inv_def inv_coll_def output_of_def scenario_def)
  have lines: "Println_hit hello_0 =
        ''Hit found in file root/a.txt'' @ [newline] @ ''Line 0: '' @ [newline] @ ''hello''
          @ [newline, newline]
      \<and> Println_hit hello_2 =
        ''Hit found in file root/a.txt'' @ [newline] @ ''Line 2: '' @ [newline] @ ''hello again''
          @ [newline, newline]"
    by code_simp
  show ?thesis using hits out lines by (simp add: hello_0_def hello_2_def)
qed

theorem C7_scenario_indices_witness:
  "driver (execution (scenario Unbuffered hello_tree)
      (sched_scan @ [AMain, AMain, ACollect, AMain, AMain])) = M_exit
   \<and> mset (emitted (execution (scenario Unbuffered hello_tree)
      (sched_scan @ [AMain, AMain, ACollect, AMain, AMain]))) = {#hello_0, hello_2#}
   \<and> stdout (execution (scenario Unbuffered hello_tree)
      (sched_scan @ [AMain, AMain, ACollect, AMain, AMain])) =
        concat (map Println_hit (emitted (execution (scenario Unbuffered hello_tree)
          (sched_scan @ [AMain, AMain, ACollect, AMain, AMain]))))"
proof -
  have ex: "driver (execution (scenario Unbuffered hello_tree)
      (sched_scan @ [AMain, AMain, ACollect, AMain, AMain])) = M_exit"
    by code_simp
  show ?thesis using C7_scenario_indices [OF ex] ex by blast
qed

text \<open>
  The claim as first stated has the line numbers 1 and 3. The output of a whole run
  reads \<open>Line 0:\<close> and \<open>Line 2:\<close>.
\<close>

theorem C7_counterexample:
  "stdout (execution (scenario Unbuffered hello_tree)
      (sched_scan @ [AMain, AMain, ACollect, AMain, AMain])) =
     ''Hit found in file root/a.txt'' @ [newline] @ ''Line 0: '' @ [newline] @ ''hello''
       @ [newline, newline]
     @ ''Hit found in file root/a.txt'' @ [newline] @ ''Line 2: '' @ [newline] @ ''hello again''
       @ [newline, newline]
   \<and> map index (emitted (execution (scenario Unbuffered hello_tree)
      (sched_scan @ [AMain, AMain, ACollect, AMain, AMain]))) = [0, 2]
   \<and> driver (execution (scenario Unbuffered hello_tree)
      (sched_scan @ [AMain, AMain, ACollect, AMain, AMain])) = M_exit"
  by code_simp

section \<open>Fan-in\<close>

text \<open>
  Claim C8. In either program and under every schedule: when \<open>main\<close> is at
  \<open>close(found)\<close> or has closed \<open>found\<close>, the number of \<open>wg.Add(1)\<close> calls and the
  number of \<open>wg.Done()\<close> calls both equal the number of entries of the tree (its root
  and every file and directory below it), the counter is zero, and every task has
  returned: the collector is never finalized while a registered unit is outstanding.
\<close>

theorem C8_fan_in_complete:
  assumes "driver (execution E sched) = M_close \<or> found_closed (execution E sched)"
  shows "wg_adds (execution E sched) = tree_size (searchDirTree E)
       \<and> wg_dones (execution E sched) = tree_size (searchDirTree E)
       \<and> wg (execution E sched) = 0
       \<and> (\<forall>t \<in> set (tasks (execution E sched)). t = Finished)"
proof -
  note I = Inv_execution [of E sched]
  have pw: "past_Wait (driver (execution E sched))"
    using assms closed_after_Wait [OF I] by auto
  show ?thesis
    using after_Wait_complete [OF I pw] after_Wait_Finished [OF I pw] by simp
qed

theorem C8_fan_in_complete_witness:
  "found_closed (execution (scenario Unbuffered hello_tree) (sched_scan @ [AMain, AMain]))
   \<and> tree_size (searchDirTree (scenario Unbuffered hello_tree)) = 2
   \<and> wg_adds (execution (scenario Unbuffered hello_tree) (sched_scan @ [AMain, AMain])) = 2
   \<and> wg_dones (execution (scenario Unbuffered hello_tree) (sched_scan @ [AMain, AMain])) = 2
   \<and> wg (execution (scenario Unbuffered hello_tree) (sched_scan @ [AMain, AMain])) = 0"
proof -
  have closed: "found_closed (execution (scenario Unbuffered hello_tree) (sched_scan @ [AMain, AMain]))"
    by code_simp
  have size: "tree_size (searchDirTree (scenario Unbuffered hello_tree)) = 2"
    by (simp add: scenario_def hello_tree_def tree_size_def)
  show ?thesis
    using C8_fan_in_complete [of "scenario Unbuffered hello_tree" "sched_scan @ [AMain, AMain]"]
      closed size by simp
qed

section \<open>Completion after a read failure\<close>

text \<open>
  Claim C9, on the tree with the unreadable file \<open>a.txt\<close> and the unlistable
  directory \<open>sub\<close>. Under every schedule and in either program, once a unit is registered the
  number of \<open>wg.Done()\<close> calls stays below the number of \<open>wg.Add(1)\<close> calls. In
  \<open>main.go\<close>, after the root task has started both tasks and returned and each of them
  has met its error, three units are registered and one is done; the file task and
  the directory task are inside \<open>check\<close> at \<open>errors <- e\<close>, and a further turn of either
  changes nothing: neither ever reaches its deferred \<open>wg.Done()\<close>.
\<close>

theorem C9_read_failure_never_signals:
  "(wg_adds (execution (scenario v failing_tree) sched) = 0
      \<or> wg_dones (execution (scenario v failing_tree) sched)
          < wg_adds (execution (scenario v failing_tree) sched))
   \<and> tasks (execution (scenario Unbuffered failing_tree) sched_failing) =
       [Finished, check_blocked (PathError ''root/a.txt''), check_blocked (PathError ''root/sub'')]
   \<and> wg_adds (execution (scenario Unbuffered failing_tree) sched_failing) = 3
   \<and> wg_dones (execution (scenario Unbuffered failing_tree) sched_failing) = 1
   \<and> wg (execution (scenario Unbuffered failing_tree) sched_failing) = 2
   \<and> step (scenario Unbuffered failing_tree) (ATask 1)
       (execution (scenario Unbuffered failing_tree) sched_failing)
       = execution (scenario Unbuffered failing_tree) sched_failing
   \<and> step (scenario Unbuffered failing_tree) (ATask 2)
       (execution (scenario Unbuffered failing_tree) sched_failing)
       = execution (scenario Unbuffered failing_tree) sched_failing"
proof -
  have blocks: "dir_blocks (searchDirTree (scenario v failing_tree))"
    by (simp add: scenario_def failing_tree_def)
  have never: "wg_adds (execution (scenario v failing_tree) sched) = 0
      \<or> wg_dones (execution (scenario v failing_tree) sched)
          < wg_adds (execution (scenario v failing_tree) sched)"
    using stuck_counter [OF Inv_execution blocks] by simp
  have concrete:
    "tasks (execution (scenario Unbuffered failing_tree) sched_failing) =
       [Finished, check_blocked (PathError ''root/a.txt''), check_blocked (PathError ''root/sub'')]
     \<and> wg_adds (execution (scenario Unbuffered failing_tree) sched_failing) = 3
     \<and> wg_dones (execution (scenario Unbuffered failing_tree) sched_failing) = 1
     \<and> wg (execution (scenario Unbuffered failing_tree) sched_failing) = 2
     \<and> step (scenario Unbuffered failing_tree) (ATask 1)
         (execution (scenario Unbuffered failing_tree) sched_failing)
         = execution (scenario Unbuffered failing_tree) sched_failing
     \<and> step (scenario Unbuffered failing_tree) (ATask 2)
         (execution (scenario Unbuffered failing_tree) sched_failing)
         = execution (scenario Unbuffered failing_tree) sched_failing"
    by code_simp
  show ?thesis using never concrete by blast
qed

end
